theory Spec2Isabelle
  imports Main "HOL-Library.Word" "HOL-Library.Signed_Division"
begin

section \<open>Go values used by the upload supervisor\<close>

subsection \<open>Machine integers\<close>

text \<open>
  Go's \<open>int\<close> is taken at its 64-bit width (the width on every 64-bit platform), and
  \<open>int64\<close> is 64 bits everywhere. Both are two's complement words: \<open>+\<close> and \<open>*\<close> wrap,
  comparisons are signed (\<open><s\<close>, \<open>\<le>s\<close>), and \<open>/\<close> truncates towards zero.
\<close>

type_synonym go_int = "64 word"
type_synonym int64 = "64 word"

definition go_quo :: "go_int \<Rightarrow> go_int \<Rightarrow> go_int" where
  "go_quo a b = word_of_int (sint a sdiv sint b)"

subsection \<open>Errors\<close>

text \<open>
  An \<open>error\<close> interface value is \<open>None\<close> for \<open>nil\<close>. The error values that occur are the
  sentinels of package \<open>context\<close>, the results of \<open>errors.New\<close>, of \<open>fmt.Errorf\<close> with
  \<open>%w\<close>, and of \<open>errors.Join\<close>.
\<close>

datatype goerr =
    Canceled
  | DeadlineExceeded
  | ErrorString string
  | WrapError string goerr
  | JoinError "goerr list"

type_synonym error = "goerr option"

definition errors_New :: "string \<Rightarrow> error" where
  "errors_New text = Some (ErrorString text)"

definition fmt_Errorf_w :: "string \<Rightarrow> goerr \<Rightarrow> error" where
  "fmt_Errorf_w prefix e = Some (WrapError prefix e)"

text \<open>\<open>errors.Join\<close> discards the nil values and returns nil when nothing is left.\<close>

definition errors_Join :: "error list \<Rightarrow> error" where
  "errors_Join errs =
     (let es = List.map_filter (\<lambda>e. e) errs
      in if es = [] then None else Some (JoinError es))"

text \<open>\<open>errors.Is\<close>: the error itself, or anything reached by unwrapping, equals the target.\<close>

fun errors_Is :: "goerr \<Rightarrow> goerr \<Rightarrow> bool" where
  "errors_Is (WrapError p e) t = (WrapError p e = t \<or> errors_Is e t)"
| "errors_Is (JoinError es) t = (JoinError es = t \<or> (\<exists>e \<in> set es. errors_Is e t))"
| "errors_Is e t = (e = t)"

subsection \<open>A context with a cancellation cause\<close>

text \<open>
  The context returned by \<open>context.WithCancelCause\<close>: \<open>ctx.Err()\<close> and
  \<open>context.Cause(ctx)\<close> are both nil until the first cancellation and are fixed by it.
  \<open>cancel(nil)\<close> records \<open>context.Canceled\<close> as the cause. A cancellation of the parent
  context reaches the child with the parent's error and cause.
\<close>

record ctx =
  ctx_err :: error
  ctx_cause :: error

definition WithCancelCause :: ctx where
  "WithCancelCause = \<lparr>ctx_err = None, ctx_cause = None\<rparr>"

definition ctx_Done :: "ctx \<Rightarrow> bool" where
  "ctx_Done c = (ctx_err c \<noteq> None)"

definition ctx_Err :: "ctx \<Rightarrow> error" where
  "ctx_Err c = ctx_err c"

definition context_Cause :: "ctx \<Rightarrow> error" where
  "context_Cause c = ctx_cause c"

definition cancel :: "error \<Rightarrow> ctx \<Rightarrow> ctx" where
  "cancel cause c =
     (if ctx_Done c then c
      else \<lparr>ctx_err = Some Canceled,
            ctx_cause = Some (case cause of None \<Rightarrow> Canceled | Some e \<Rightarrow> e)\<rparr>)"

text \<open>
  The parent context is not under the function's control. \<open>parentCancel p c\<close> is the
  effect on the child of the parent being cancelled with error and cause \<open>p\<close>, or of
  nothing happening when \<open>p\<close> is \<open>None\<close>.
\<close>

definition parentCancel :: "(goerr \<times> goerr) option \<Rightarrow> ctx \<Rightarrow> ctx" where
  "parentCancel p c =
     (case p of
        None \<Rightarrow> c
      | Some (e, cause) \<Rightarrow>
          if ctx_Done c then c else \<lparr>ctx_err = Some e, ctx_cause = Some cause\<rparr>)"

text \<open>
  \<open>errgroup.Group.Wait\<close> (zero-valued group, no derived context) returns the first
  non-nil error in the order in which the goroutines returned.
\<close>

fun errgroup_Wait :: "error list \<Rightarrow> error" where
  "errgroup_Wait [] = None"
| "errgroup_Wait (None # es) = errgroup_Wait es"
| "errgroup_Wait (Some e # es) = Some e"

section \<open>Shared progress state\<close>

record progress_state =
  currImmich :: go_int
  maxImmich :: go_int

definition immichUpdate :: "go_int \<Rightarrow> go_int \<Rightarrow> progress_state \<Rightarrow> progress_state" where
  "immichUpdate v tot s = s\<lparr>currImmich := v, maxImmich := tot\<rparr>"

definition getImmichPct :: "progress_state \<Rightarrow> go_int" where
  "getImmichPct s =
     (if 0 <s maxImmich s then go_quo (100 * currImmich s) (maxImmich s) else 100)"

text \<open>The percentages read after each of a sequence of updates.\<close>

fun percent_trace :: "progress_state \<Rightarrow> (go_int \<times> go_int) list \<Rightarrow> go_int list" where
  "percent_trace s [] = []"
| "percent_trace s ((v, tot) # us) =
     (let s' = immichUpdate v tot s in getImmichPct s' # percent_trace s' us)"

section \<open>Text formatting\<close>

definition digit_char :: "nat \<Rightarrow> char" where
  "digit_char n = ''0123456789'' ! (n mod 10)"

fun decimal_nat :: "nat \<Rightarrow> string" where
  "decimal_nat n =
     (if n < 10 then [digit_char n] else decimal_nat (n div 10) @ [digit_char n])"

declare decimal_nat.simps [simp del]

text \<open>The verb \<open>%d\<close>, and the JSON encoding of an integer.\<close>

definition format_int :: "int \<Rightarrow> string" where
  "format_int i = (if i < 0 then CHR ''-'' # decimal_nat (nat (- i)) else decimal_nat (nat i))"

text \<open>\<open>appendInt\<close> of package \<open>time\<close>: at least \<open>w\<close> digits, zero padded.\<close>

definition appendInt :: "int \<Rightarrow> nat \<Rightarrow> string" where
  "appendInt i w =
     (let ds = decimal_nat (nat \<bar>i\<bar>)
      in (if i < 0 then ''-'' else '''') @ replicate (w - length ds) CHR ''0'' @ ds)"

fun strip_zeros :: "string \<Rightarrow> string" where
  "strip_zeros [] = []"
| "strip_zeros (c # cs) =
     (let r = strip_zeros cs in if r = [] \<and> c = CHR ''0'' then [] else c # r)"

section \<open>Structured output (package jsonoutput)\<close>

record time =
  year :: int
  month :: nat
  day :: nat
  hour :: nat
  minute :: nat
  second :: nat
  nanosecond :: nat
  zoneOffset :: int

text \<open>
  The layout \<open>RFC3339Nano\<close> as \<open>time.Time.MarshalJSON\<close> produces it: trailing zeros of
  the fraction are dropped, a zero offset is \<open>Z\<close>; a year outside \<open>[0,9999]\<close> or a zone
  hour outside \<open>[0,23]\<close> is an error.
\<close>

definition format_fraction :: "nat \<Rightarrow> string" where
  "format_fraction ns =
     (let ds = strip_zeros (appendInt (int ns) 9) in if ds = [] then [] else CHR ''.'' # ds)"

definition format_zone :: "int \<Rightarrow> string" where
  "format_zone off =
     (if off = 0 then ''Z''
      else (let zone = off sdiv 60;
                az = \<bar>zone\<bar>
            in (if zone < 0 then ''-'' else ''+'')
               @ appendInt (az div 60) 2 @ '':'' @ appendInt (az mod 60) 2))"

definition time_MarshalJSON :: "time \<Rightarrow> goerr + string" where
  "time_MarshalJSON t =
     (if year t < 0 \<or> 9999 < year t
        then Inl (ErrorString ''Time.MarshalJSON: year outside of range [0,9999]'')
      else if zoneOffset t \<noteq> 0 \<and> 24 \<le> \<bar>zoneOffset t sdiv 60\<bar> div 60
        then Inl (ErrorString ''Time.MarshalJSON: timezone hour outside of range [0,23]'')
      else Inr (''\"'' @ appendInt (year t) 4 @ ''-'' @ appendInt (int (month t)) 2
                @ ''-'' @ appendInt (int (day t)) 2 @ ''T'' @ appendInt (int (hour t)) 2
                @ '':'' @ appendInt (int (minute t)) 2 @ '':'' @ appendInt (int (second t)) 2
                @ format_fraction (nanosecond t) @ format_zone (zoneOffset t) @ ''\"''))"

record ProgressUpdate =
  Type :: string
  Timestamp :: time
  ImmichReadPct :: go_int
  AssetsFound :: int64
  UploadErrors :: int64
  Uploaded :: int64

text \<open>
  A JSON string literal. The characters that \<open>encoding/json\<close> writes as they are
  (printable ASCII other than the quote, the backslash and the HTML-sensitive ones) are
  kept; the quote, the backslash and the line controls get their two-character escapes.
\<close>

fun json_escape :: "string \<Rightarrow> string" where
  "json_escape [] = []"
| "json_escape (c # cs) =
     (if c = CHR ''\"'' then [CHR 0x5C, CHR ''\"'']
      else if c = CHR 0x5C then [CHR 0x5C, CHR 0x5C]
      else if c = CHR 0x0A then [CHR 0x5C, CHR ''n'']
      else if c = CHR 0x0D then [CHR 0x5C, CHR ''r'']
      else if c = CHR 0x09 then [CHR 0x5C, CHR ''t'']
      else [c]) @ json_escape cs"

definition json_string :: "string \<Rightarrow> string" where
  "json_string s = ''\"'' @ json_escape s @ ''\"''"

text \<open>
  \<open>json.Marshal\<close> of a \<open>ProgressUpdate\<close>: the fields in declaration order under the
  names of their \<open>json\<close> tags, without any white space.
\<close>

definition json_Marshal :: "ProgressUpdate \<Rightarrow> goerr + string" where
  "json_Marshal p =
     (case time_MarshalJSON (Timestamp p) of
        Inl e \<Rightarrow> Inl (WrapError ''json: error calling MarshalJSON for type time.Time: '' e)
      | Inr ts \<Rightarrow>
          Inr (''{'' @ json_string ''type'' @ '':'' @ json_string (Type p)
               @ '','' @ json_string ''timestamp'' @ '':'' @ ts
               @ '','' @ json_string ''immich_read_pct'' @ '':'' @ format_int (sint (ImmichReadPct p))
               @ '','' @ json_string ''assets_found'' @ '':'' @ format_int (sint (AssetsFound p))
               @ '','' @ json_string ''upload_errors'' @ '':'' @ format_int (sint (UploadErrors p))
               @ '','' @ json_string ''uploaded'' @ '':'' @ format_int (sint (Uploaded p))
               @ ''}''))"

text \<open>What a render leaves behind: calls of \<open>Write\<close> on a stream, and log records.\<close>

datatype slog_value =
    StringValue string
  | Int64Value int64
  | AnyError goerr
  | GroupValue "(string \<times> slog_value) list"

type_synonym slog_attr = "string \<times> slog_value"

datatype effect =
    StdoutWrite string
  | StderrWrite string
  | LogInfo string "slog_attr list"
  | LogError string "slog_attr list"

text \<open>
  \<open>writeJSON\<close>, at the type it is used at here. \<open>werr\<close> is what \<open>os.Stdout.Write\<close>
  returns for the call.
\<close>

definition writeJSON :: "ProgressUpdate \<Rightarrow> error \<Rightarrow> error \<times> effect list" where
  "writeJSON data werr =
     (case json_Marshal data of
        Inl e \<Rightarrow> (fmt_Errorf_w ''failed to marshal JSON: '' e, [])
      | Inr jsonData \<Rightarrow> (werr, [StdoutWrite (jsonData @ [CHR 0x0A])]))"

definition WriteProgress ::
  "go_int \<Rightarrow> int64 \<Rightarrow> int64 \<Rightarrow> int64 \<Rightarrow> time \<Rightarrow> error \<Rightarrow> error \<times> effect list" where
  "WriteProgress immichPct totalAssets uploadErrors uploaded now werr =
     writeJSON \<lparr>Type = ''progress'', Timestamp = now, ImmichReadPct = immichPct,
                AssetsFound = totalAssets, UploadErrors = uploadErrors,
                Uploaded = uploaded\<rparr> werr"

section \<open>The progress reporter of \<open>runNoUI\<close>\<close>

text \<open>
  The event codes of package \<open>fileevent\<close> that \<open>runNoUI\<close> reads. A render sees the
  state of its moment: the scan progress, the counters, the clock, and what the write to
  standard output will return.
\<close>

datatype Code =
    ErrorUploadFailed
  | ErrorServerError
  | ErrorFileAccess
  | ErrorIncomplete
  | ProcessedUploadSuccess

record world =
  progress :: progress_state
  GetCounts :: "Code \<Rightarrow> int64"
  TotalAssets :: int64
  now :: time
  stdoutErr :: error

record application =
  Output :: string
  NonInteractive :: bool

definition isJSONMode :: "application \<Rightarrow> bool" where
  "isJSONMode app = (Output app = ''json'')"

definition isNonInteractive :: "application \<Rightarrow> bool" where
  "isNonInteractive app = NonInteractive app"

subsection \<open>First listing (lines 17 to 162)\<close>

definition logProgress :: "world \<Rightarrow> effect list" where
  "logProgress w =
     (let counts = GetCounts w;
          immichPct = getImmichPct (progress w)
      in [LogInfo ''progress''
            [(''immich_read_pct'', Int64Value immichPct),
             (''assets_found'', Int64Value (TotalAssets w)),
             (''upload_errors'', Int64Value (counts ErrorServerError)),
             (''uploaded'', Int64Value (counts ProcessedUploadSuccess))]])"

definition outputJSONProgress :: "world \<Rightarrow> effect list" where
  "outputJSONProgress w =
     (let counts = GetCounts w;
          immichPct = getImmichPct (progress w);
          (err, out) = WriteProgress immichPct (TotalAssets w) (counts ErrorServerError)
                         (counts ProcessedUploadSuccess) (now w) (stdoutErr w)
      in case err of
           None \<Rightarrow> out
         | Some e \<Rightarrow> out @ [LogError ''failed to write JSON progress'' [(''err'', AnyError e)]])"

text \<open>
  A status is a list of renders, each render the effects of one call of a rendering
  function. The deferred function and the ticker case contain the same chain.
\<close>

definition deferredStatus :: "application \<Rightarrow> world \<Rightarrow> effect list list" where
  "deferredStatus app w =
     (if isJSONMode app then [outputJSONProgress w]
      else if isNonInteractive app then [logProgress w]
      else [])"

definition tickerStatus :: "application \<Rightarrow> world \<Rightarrow> effect list list" where
  "tickerStatus app w =
     (if isJSONMode app then [outputJSONProgress w]
      else if isNonInteractive app then [logProgress w]
      else [])"

text \<open>
  The \<open>select\<close> loop. The ticker case is taken once for each element of \<open>ticks\<close> (the
  world seen by that render), then the case of the signal \<open>sg\<close> is taken.
\<close>

datatype signal = StopProgress | CtxDone

record report =
  periodic :: "effect list list"
  final :: "effect list list"
  returned :: error

fun progressLoop :: "application \<Rightarrow> world list \<Rightarrow> signal \<Rightarrow> ctx \<Rightarrow> effect list list \<times> error" where
  "progressLoop app [] StopProgress c = ([], None)"
| "progressLoop app [] CtxDone c = ([], ctx_Err c)"
| "progressLoop app (w # ticks) sg c =
     (let (out, r) = progressLoop app ticks sg c in (tickerStatus app w @ out, r))"

definition progressTask :: "application \<Rightarrow> world list \<Rightarrow> signal \<Rightarrow> ctx \<Rightarrow> world \<Rightarrow> report" where
  "progressTask app ticks sg c wfin =
     (let (out, r) = progressLoop app ticks sg c
      in \<lparr>periodic = out, final = deferredStatus app wfin, returned = r\<rparr>)"

subsection \<open>Second listing (lines 182 to 358)\<close>

definition spinner :: string where
  "spinner = ''  .  ''"

definition progressString :: "world \<Rightarrow> nat \<Rightarrow> string \<times> nat" where
  "progressString w spinIdx =
     (let counts = GetCounts w;
          immichPct = getImmichPct (progress w);
          line = [CHR 0x0D] @ ''Immich read '' @ format_int (sint immichPct)
                 @ ''%, Assets found: '' @ format_int (sint (TotalAssets w))
                 @ '', Upload errors: '' @ format_int (sint (counts ErrorServerError))
                 @ '', Uploaded '' @ format_int (sint (counts ProcessedUploadSuccess))
                 @ '' '' @ [spinner ! spinIdx]
      in (line, if spinIdx + 1 = length spinner then 0 else spinIdx + 1))"

definition progressStringNonInteractive :: "world \<Rightarrow> string" where
  "progressStringNonInteractive w =
     (let counts = GetCounts w;
          immichPct = getImmichPct (progress w)
      in ''Immich read '' @ format_int (sint immichPct)
         @ ''%, Assets found: '' @ format_int (sint (TotalAssets w))
         @ '', Upload errors: '' @ format_int (sint (counts ErrorServerError))
         @ '', Uploaded '' @ format_int (sint (counts ProcessedUploadSuccess)))"

definition outputJSONProgress_alt :: "world \<Rightarrow> effect list" where
  "outputJSONProgress_alt w =
     (let counts = GetCounts w;
          immichPct = getImmichPct (progress w)
      in snd (WriteProgress immichPct (TotalAssets w) (counts ErrorServerError)
                (counts ProcessedUploadSuccess) (now w) (stdoutErr w)))"

text \<open>The chain of the three \<open>select\<close> cases (\<open>fmt.Print\<close> in interactive mode).\<close>

definition caseStatus_alt :: "application \<Rightarrow> world \<Rightarrow> nat \<Rightarrow> effect list \<times> nat" where
  "caseStatus_alt app w spinIdx =
     (if isJSONMode app then (outputJSONProgress_alt w, spinIdx)
      else if isNonInteractive app
        then ([StderrWrite (progressStringNonInteractive w @ [CHR 0x0A])], spinIdx)
      else (let (line, i) = progressString w spinIdx in ([StdoutWrite line], i)))"

text \<open>The chain of the deferred function (\<open>fmt.Println\<close> in interactive mode).\<close>

definition deferredStatus_alt :: "application \<Rightarrow> world \<Rightarrow> nat \<Rightarrow> effect list \<times> nat" where
  "deferredStatus_alt app w spinIdx =
     (if isJSONMode app then (outputJSONProgress_alt w, spinIdx)
      else if isNonInteractive app
        then ([StderrWrite (progressStringNonInteractive w @ [CHR 0x0A])], spinIdx)
      else (let (line, i) = progressString w spinIdx in ([StdoutWrite (line @ [CHR 0x0A])], i)))"

fun tickerLoop_alt :: "application \<Rightarrow> world list \<Rightarrow> nat \<Rightarrow> effect list list \<times> nat" where
  "tickerLoop_alt app [] spinIdx = ([], spinIdx)"
| "tickerLoop_alt app (w # ticks) spinIdx =
     (let (r, i) = caseStatus_alt app w spinIdx;
          (out, j) = tickerLoop_alt app ticks i
      in (r # out, j))"

text \<open>
  After the ticks, the case of the signal renders (seeing \<open>wsel\<close>) and returns; then
  the deferred function renders (seeing \<open>wfin\<close>).
\<close>

definition progressTask_alt ::
  "application \<Rightarrow> world list \<Rightarrow> signal \<Rightarrow> ctx \<Rightarrow> world \<Rightarrow> world \<Rightarrow> report" where
  "progressTask_alt app ticks sg c wsel wfin =
     (let (out, i) = tickerLoop_alt app ticks 0;
          (r1, i1) = caseStatus_alt app wsel i;
          ret = (case sg of StopProgress \<Rightarrow> None | CtxDone \<Rightarrow> ctx_Err c);
          (r2, i2) = deferredStatus_alt app wfin i1
      in \<lparr>periodic = out, final = [r1, r2], returned = ret\<rparr>)"

section \<open>The pipeline of \<open>runNoUI\<close>\<close>

text \<open>
  What \<open>runNoUI\<close> does not decide is a parameter of the run: the results of the calls
  into the rest of the upload command, the counters read after the upload loop, the
  moments at which the parent context is cancelled (relative to the reads and writes of
  the cancellation state in \<open>runNoUI\<close>), the ticks the reporter serves, and which case
  its \<open>select\<close> takes when both the completion signal and the cancellation are ready.
\<close>

datatype rpoint =
    BeforeInventoryCancel
  | BeforeJoinCheck
  | BeforeUploadCancel
  | BeforeAdvisoryCancel
  | BeforeReporterExit
  | BeforeFinalCause

record env =
  parentCancelled :: "rpoint \<Rightarrow> (goerr \<times> goerr) option"
  getImmichAssets :: error
  getImmichAlbums :: error
  uploadLoop :: error
  finishing :: error
  loggerCounts :: "Code \<Rightarrow> int64"
  tickWorlds :: "world list"
  selectWorld :: world
  finalWorld :: world
  selectStop :: bool

record pipeline_result =
  p_ctx :: ctx
  p_err :: error
  uploadStarted :: bool
  finishingRan :: bool
  stopProgressClosed :: bool

text \<open>
  The three goroutines of \<open>processGrp\<close>. The first cancels with its error; the second
  only returns its error; the third returns the variable \<open>err\<close> of the enclosing
  function, which is still nil while the group runs. Only whether the result of
  \<open>Wait\<close> is nil is used afterwards, so the order of the list does not matter.
\<close>

definition processGrp :: "env \<Rightarrow> ctx \<Rightarrow> error \<times> ctx" where
  "processGrp e c0 =
     (let c1 = parentCancel (parentCancelled e BeforeInventoryCancel) c0;
          err1 = getImmichAssets e;
          c2 = (if err1 \<noteq> None then cancel err1 c1 else c1);
          err2 = getImmichAlbums e;
          err3 = None
      in (errgroup_Wait [err1, err2, err3], c2))"

definition error_counters :: "(Code \<Rightarrow> int64) \<Rightarrow> int64" where
  "error_counters counts =
     counts ErrorUploadFailed + counts ErrorServerError + counts ErrorFileAccess
     + counts ErrorIncomplete"

definition pipeline :: "string \<Rightarrow> env \<Rightarrow> ctx \<Rightarrow> pipeline_result" where
  "pipeline advisory e c0 =
     (let (err, c2) = processGrp e c0;
          c3 = parentCancel (parentCancelled e BeforeJoinCheck) c2
      in if err \<noteq> None \<and> context_Cause c3 \<noteq> None
         then \<lparr>p_ctx = cancel (context_Cause c3) c3, p_err = context_Cause c3,
               uploadStarted = False, finishingRan = False, stopProgressClosed = False\<rparr>
         else
           (let c4 = parentCancel (parentCancelled e BeforeUploadCancel) c3;
                err = uploadLoop e;
                c5 = (if err \<noteq> None then cancel err c4 else c4);
                c6 = parentCancel (parentCancelled e BeforeAdvisoryCancel) c5;
                counts = loggerCounts e;
                messages = (if 0 <s error_counters counts then advisory else []);
                c7 = (if 0 < length messages then cancel (errors_New messages) c6 else c6);
                err = errors_Join [err, finishing e]
            in \<lparr>p_ctx = c7, p_err = err, uploadStarted = True, finishingRan = True,
                 stopProgressClosed = True\<rparr>))"

text \<open>
  The case the reporter leaves its loop by. With neither channel ready it blocks; with
  both ready \<open>select\<close> is free to take either.
\<close>

definition selectSignal :: "bool \<Rightarrow> bool \<Rightarrow> bool \<Rightarrow> signal option" where
  "selectSignal closed done preferStop =
     (if closed \<and> done then Some (if preferStop then StopProgress else CtxDone)
      else if closed then Some StopProgress
      else if done then Some CtxDone
      else None)"

record outcome =
  result :: error
  run_ctx :: ctx
  upload_started :: bool
  finishing_ran :: bool
  reporter :: report

definition advisory_text :: string where
  "advisory_text = ''Some errors have occurred. Check stderr for details'' @ [CHR 0x0A]"

definition advisory_text_alt :: string where
  "advisory_text_alt = ''Some errors have occurred. Look at the log file for details'' @ [CHR 0x0A]"

text \<open>
  \<open>runNoUI\<close>, once for each listing. The two goroutines of \<open>uiGrp\<close> are the reporter
  and the pipeline; only whether the result of \<open>Wait\<close> is nil is used. The result is
  \<open>None\<close> when the function does not return because the reporter never leaves its
  loop. The deferred \<open>cancel(nil)\<close> runs after the returned value is fixed, and the
  flag \<open>preparationDone\<close> of the second listing is written but never read; neither
  is part of the result.
\<close>

definition runNoUI :: "application \<Rightarrow> env \<Rightarrow> outcome option" where
  "runNoUI app e =
     (let p = pipeline advisory_text e WithCancelCause;
          c8 = parentCancel (parentCancelled e BeforeReporterExit) (p_ctx p)
      in case selectSignal (stopProgressClosed p) (ctx_Done c8) (selectStop e) of
           None \<Rightarrow> None
         | Some sg \<Rightarrow>
             (let rep = progressTask app (tickWorlds e) sg c8 (finalWorld e);
                  c9 = parentCancel (parentCancelled e BeforeFinalCause) c8;
                  err = errgroup_Wait [returned rep, p_err p];
                  err = (if err \<noteq> None then context_Cause c9 else err)
              in Some \<lparr>result = err, run_ctx = c9, upload_started = uploadStarted p,
                        finishing_ran = finishingRan p, reporter = rep\<rparr>))"

definition runNoUI_alt :: "application \<Rightarrow> env \<Rightarrow> outcome option" where
  "runNoUI_alt app e =
     (let p = pipeline advisory_text_alt e WithCancelCause;
          c8 = parentCancel (parentCancelled e BeforeReporterExit) (p_ctx p)
      in case selectSignal (stopProgressClosed p) (ctx_Done c8) (selectStop e) of
           None \<Rightarrow> None
         | Some sg \<Rightarrow>
             (let rep = progressTask_alt app (tickWorlds e) sg c8 (selectWorld e) (finalWorld e);
                  c9 = parentCancel (parentCancelled e BeforeFinalCause) c8;
                  err = errgroup_Wait [returned rep, p_err p];
                  err = (if err \<noteq> None then context_Cause c9 else err)
              in Some \<lparr>result = err, run_ctx = c9, upload_started = uploadStarted p,
                        finishing_ran = finishingRan p, reporter = rep\<rparr>))"

section \<open>The filtering log handler (package app)\<close>

record slog_record =
  Level :: int
  Message :: string
  Attrs :: "slog_attr list"

definition LevelError :: int where
  "LevelError = 8"

text \<open>\<open>Record.Attrs\<close> calls the function on each attribute until it returns false.\<close>

fun Record_Attrs :: "(slog_attr \<Rightarrow> 's \<Rightarrow> bool \<times> 's) \<Rightarrow> slog_attr list \<Rightarrow> 's \<Rightarrow> 's" where
  "Record_Attrs f [] s = s"
| "Record_Attrs f (a # as) s =
     (case f a s of (continue, s') \<Rightarrow> if continue then Record_Attrs f as s' else s')"

text \<open>The type assertion \<open>a.Value.Any().(error)\<close>.\<close>

definition asError :: "slog_value \<Rightarrow> goerr option" where
  "asError v = (case v of AnyError err \<Rightarrow> Some err | _ \<Rightarrow> None)"

text \<open>The function literal passed to \<open>Attrs\<close>; the state is its variable \<open>keepMe\<close>.\<close>

definition attrFilter :: "slog_attr \<Rightarrow> bool \<Rightarrow> bool \<times> bool" where
  "attrFilter a keepMe =
     (case asError (snd a) of
        Some err \<Rightarrow> if errors_Is err Canceled then (False, False) else (True, keepMe)
      | None \<Rightarrow> (True, keepMe))"

text \<open>
  \<open>FilteredHandler.Handle\<close>. The wrapped handler is a function of the record and of
  its own state \<open>h\<close> (what it has written so far).
\<close>

definition Handle :: "(slog_record \<Rightarrow> 'h \<Rightarrow> error \<times> 'h) \<Rightarrow> slog_record \<Rightarrow> 'h \<Rightarrow> error \<times> 'h" where
  "Handle handler r h =
     (if LevelError \<le> Level r
      then (let keepMe = Record_Attrs attrFilter (Attrs r) True
            in if \<not> keepMe then (None, h) else handler r h)
      else handler r h)"

section \<open>The flag listing of \<open>Log.Open\<close>\<close>

fun strings_Contains :: "string \<Rightarrow> string \<Rightarrow> bool" where
  "strings_Contains [] substr = (substr = [])"
| "strings_Contains (c # cs) substr =
     (take (length substr) (c # cs) = substr \<or> strings_Contains cs substr)"

definition strings_Repeat :: "string \<Rightarrow> nat \<Rightarrow> string" where
  "strings_Repeat s count = concat (replicate count s)"

record flag =
  Name :: string
  Value :: string

definition visitFlags :: "flag \<Rightarrow> string \<Rightarrow> effect" where
  "visitFlags f origin =
     (let val = Value f;
          val = (if strings_Contains (Name f) ''api-key'' \<and> 4 < length val
                 then strings_Repeat ''*'' (length val - 4) @ drop (length val - 4) val
                 else val)
      in LogInfo '''' [(''--'' @ Name f, StringValue val), (''origin'', StringValue origin)])"

section \<open>Vocabulary of the statements\<close>

text \<open>A string that is one line: it ends with a line feed and holds no other.\<close>

definition single_line :: "string \<Rightarrow> bool" where
  "single_line s = (s \<noteq> [] \<and> last s = CHR 0x0A \<and> CHR 0x0A \<notin> set (butlast s))"

text \<open>The text of a progress record, given the encoded timestamp.\<close>

definition progress_line :: "string \<Rightarrow> go_int \<Rightarrow> int64 \<Rightarrow> int64 \<Rightarrow> int64 \<Rightarrow> string" where
  "progress_line ts pct found errs up =
     ''{\"type\":\"progress\",\"timestamp\":'' @ ts
     @ '',\"immich_read_pct\":'' @ format_int (sint pct)
     @ '',\"assets_found\":'' @ format_int (sint found)
     @ '',\"upload_errors\":'' @ format_int (sint errs)
     @ '',\"uploaded\":'' @ format_int (sint up) @ ''}''"

text \<open>An attribute whose value is an error that matches \<open>context.Canceled\<close>.\<close>

definition is_canceled_attr :: "slog_attr \<Rightarrow> bool" where
  "is_canceled_attr a = (case snd a of AnyError err \<Rightarrow> errors_Is err Canceled | _ \<Rightarrow> False)"

text \<open>
  A sequence of cancellations of one context, in the order in which they happen: calls
  of its \<open>cancel\<close> function from any goroutine, and cancellations of its parent.
\<close>

datatype cancel_call = Cancel error | ParentCancel goerr goerr

fun apply_call :: "ctx \<Rightarrow> cancel_call \<Rightarrow> ctx" where
  "apply_call c (Cancel cause) = cancel cause c"
| "apply_call c (ParentCancel e cause) = parentCancel (Some (e, cause)) c"

definition after_calls :: "cancel_call list \<Rightarrow> ctx" where
  "after_calls calls = foldl apply_call WithCancelCause calls"

text \<open>
  A run in which nothing fails: the parent context stays live, every call returns nil,
  all counters are zero, and the reporter serves no tick before the completion signal.
\<close>

definition never_cancelled :: "rpoint \<Rightarrow> (goerr \<times> goerr) option" where
  "never_cancelled p = None"

definition no_events :: "Code \<Rightarrow> int64" where
  "no_events code = 0"

fun one_upload_failed :: "Code \<Rightarrow> int64" where
  "one_upload_failed ErrorUploadFailed = 1"
| "one_upload_failed code = 0"

definition test_clock :: time where
  "test_clock = \<lparr>year = 2026, month = 11, day = 1, hour = 9, minute = 5, second = 7,
                  nanosecond = 120000000, zoneOffset = - 19800\<rparr>"

definition quiet_world :: world where
  "quiet_world = \<lparr>progress = \<lparr>currImmich = 0, maxImmich = 0\<rparr>, GetCounts = no_events,
                   TotalAssets = 0, now = test_clock, stdoutErr = None\<rparr>"

definition clean_run :: env where
  "clean_run = \<lparr>parentCancelled = never_cancelled, getImmichAssets = None,
                 getImmichAlbums = None, uploadLoop = None, finishing = None,
                 loggerCounts = no_events, tickWorlds = [], selectWorld = quiet_world,
                 finalWorld = quiet_world, selectStop = True\<rparr>"

text \<open>The parent context is cancelled with the given error and cause after the join of the phases.\<close>

fun cancelled_after_join :: "goerr \<Rightarrow> goerr \<Rightarrow> rpoint \<Rightarrow> (goerr \<times> goerr) option" where
  "cancelled_after_join e cause BeforeJoinCheck = Some (e, cause)"
| "cancelled_after_join e cause p = None"

section \<open>Arithmetic of the percentage\<close>

lemma sint_mult_100:
  assumes "- (2 ^ 63) \<le> 100 * sint (v :: go_int)" "100 * sint v < 2 ^ 63"
  shows "sint (100 * v) = 100 * sint v"
proof -
  have "sint (100 * v) = signed_take_bit 63 (sint (100 :: go_int) * sint v)"
    by (simp add: sint_word_mult del: sint_numeral)
  also have "\<dots> = signed_take_bit 63 (100 * sint v)"
    by simp
  also have "\<dots> = 100 * sint v"
    using assms by (intro signed_take_bit_int_eq_self) simp_all
  finally show ?thesis .
qed

lemma sdiv_pos_bounds:
  assumes "0 < (b::int)" "- m \<le> a" "a < m"
  shows "- m \<le> a sdiv b \<and> a sdiv b < m"
proof (cases "0 \<le> a")
  case True
  then have "a sdiv b = a div b"
    using assms(1) by (simp add: signed_divide_int_def sgn_if)
  moreover have "0 \<le> a div b" using True assms(1) by (simp add: pos_imp_zdiv_nonneg_iff)
  moreover have "a div b \<le> a" using zdiv_mono2 [of a 1 b] True assms(1) by simp
  ultimately show ?thesis using assms by linarith
next
  case False
  then have e: "a sdiv b = - ((- a) div b)"
    using assms(1) by (simp add: signed_divide_int_def sgn_if)
  have "0 \<le> (- a) div b" using False assms(1) by (simp add: pos_imp_zdiv_nonneg_iff)
  moreover have "(- a) div b \<le> - a" using zdiv_mono2 [of "- a" 1 b] False assms(1) by simp
  ultimately show ?thesis using e assms False by linarith
qed

lemma sint_go_quo:
  assumes "0 < sint (b :: go_int)"
  shows "sint (go_quo a b) = sint a sdiv sint b"
proof -
  have lo: "- (2 ^ 63) \<le> sint a" using sint_ge [of a] by simp
  have hi: "sint a < 2 ^ 63" using sint_lt [of a] by simp
  have "- (2 ^ 63) \<le> sint a sdiv sint b \<and> sint a sdiv sint b < 2 ^ 63"
    using sdiv_pos_bounds [OF assms lo hi] .
  then have "signed_take_bit 63 (sint a sdiv sint b) = sint a sdiv sint b"
    by (intro signed_take_bit_int_eq_self) simp_all
  then show ?thesis
    by (simp add: go_quo_def sint_sbintrunc')
qed

lemma getImmichPct_immichUpdate:
  "getImmichPct (immichUpdate v tot s) = (if 0 <s tot then go_quo (100 * v) tot else 100)"
  by (simp add: getImmichPct_def immichUpdate_def)

lemma sint_percent:
  assumes "0 < sint tot" "- (2 ^ 63) \<le> 100 * sint v" "100 * sint v < 2 ^ 63"
  shows "sint (getImmichPct (immichUpdate v tot s)) = (100 * sint v) sdiv sint tot"
  using assms
  by (simp add: getImmichPct_immichUpdate word_sless_alt sint_go_quo sint_mult_100)

lemma sdiv_nonneg: "0 \<le> (a::int) \<Longrightarrow> 0 < b \<Longrightarrow> a sdiv b = a div b"
  by (simp add: signed_divide_int_def sgn_if)

lemma sint_percent_nonneg:
  assumes "0 < sint tot" "0 \<le> sint v" "100 * sint v < 2 ^ 63"
  shows "sint (getImmichPct (immichUpdate v tot s)) = (100 * sint v) div sint tot"
proof -
  have "- (2 ^ 63) \<le> 100 * sint v" using assms(2) by simp
  then have "sint (getImmichPct (immichUpdate v tot s)) = (100 * sint v) sdiv sint tot"
    using assms by (intro sint_percent) simp_all
  then show ?thesis using assms by (simp add: sdiv_nonneg)
qed

lemma percent_trace_fixed_total:
  "percent_trace s (map (\<lambda>v. (v, tot)) vs) = map (\<lambda>v. getImmichPct (immichUpdate v tot s)) vs"
proof (induction vs arbitrary: s)
  case Nil
  show ?case by simp
next
  case (Cons v vs)
  have "\<And>u. getImmichPct (immichUpdate u tot (immichUpdate v tot s)) = getImmichPct (immichUpdate u tot s)"
    by (simp add: getImmichPct_immichUpdate)
  then show ?case using Cons.IH [of "immichUpdate v tot s"] by (simp add: Let_def)
qed

text \<open>
  Claim C6. After \<open>update(v, tot)\<close> the percent accessor returns the Go expression
  \<open>100 * v / tot\<close> when \<open>tot > 0\<close>, which is the truncated quotient of the integers
  whenever \<open>100 * v\<close> does not overflow (the floor quotient for \<open>v \<ge> 0\<close>); it
  returns 100 when \<open>tot = 0\<close>, in particular after \<open>update(0, 0)\<close>.
\<close>

theorem getImmichPct_after_update:
  "getImmichPct (immichUpdate v tot s) = (if 0 <s tot then go_quo (100 * v) tot else 100)
   \<and> (0 < sint tot \<and> - (2 ^ 63) \<le> 100 * sint v \<and> 100 * sint v < 2 ^ 63
        \<longrightarrow> sint (getImmichPct (immichUpdate v tot s)) = (100 * sint v) sdiv sint tot)
   \<and> (0 < sint tot \<and> 0 \<le> sint v \<and> 100 * sint v < 2 ^ 63
        \<longrightarrow> sint (getImmichPct (immichUpdate v tot s)) = (100 * sint v) div sint tot)
   \<and> (tot = 0 \<longrightarrow> getImmichPct (immichUpdate v tot s) = 100)
   \<and> getImmichPct (immichUpdate 0 0 s) = 100"
proof (intro conjI impI)
  show "getImmichPct (immichUpdate v tot s) = (if 0 <s tot then go_quo (100 * v) tot else 100)"
    by (rule getImmichPct_immichUpdate)
next
  assume "0 < sint tot \<and> - (2 ^ 63) \<le> 100 * sint v \<and> 100 * sint v < 2 ^ 63"
  then show "sint (getImmichPct (immichUpdate v tot s)) = (100 * sint v) sdiv sint tot"
    by (simp add: sint_percent)
next
  assume "0 < sint tot \<and> 0 \<le> sint v \<and> 100 * sint v < 2 ^ 63"
  then show "sint (getImmichPct (immichUpdate v tot s)) = (100 * sint v) div sint tot"
    by (simp add: sint_percent_nonneg)
next
  assume "tot = 0"
  then show "getImmichPct (immichUpdate v tot s) = 100"
    by (simp add: getImmichPct_immichUpdate)
next
  show "getImmichPct (immichUpdate 0 0 s) = 100"
    by (simp add: getImmichPct_immichUpdate)
qed

text \<open>The scenario \<open>(50, 200)\<close> gives 25; an unknown total gives 100.\<close>

theorem getImmichPct_after_update_witness:
  "0 < sint (200 :: go_int) \<and> 0 \<le> sint (50 :: go_int) \<and> 100 * sint (50 :: go_int) < 2 ^ 63
   \<and> sint (getImmichPct (immichUpdate 50 200 \<lparr>currImmich = 0, maxImmich = 0\<rparr>)) = 25
   \<and> getImmichPct (immichUpdate 7 0 \<lparr>currImmich = 50, maxImmich = 200\<rparr>) = 100"
proof -
  have h: "0 < sint (200 :: go_int) \<and> 0 \<le> sint (50 :: go_int) \<and> 100 * sint (50 :: go_int) < 2 ^ 63"
    by simp
  have "sint (getImmichPct (immichUpdate 50 200 \<lparr>currImmich = 0, maxImmich = 0\<rparr>))
        = (100 * sint (50 :: go_int)) div sint (200 :: go_int)"
    using getImmichPct_after_update [of 50 200 "\<lparr>currImmich = 0, maxImmich = 0\<rparr>",
        THEN conjunct2, THEN conjunct2, THEN conjunct1] h by blast
  then have a: "sint (getImmichPct (immichUpdate 50 200 \<lparr>currImmich = 0, maxImmich = 0\<rparr>)) = 25"
    by simp
  have b: "getImmichPct (immichUpdate 7 0 \<lparr>currImmich = 50, maxImmich = 200\<rparr>) = 100"
    using getImmichPct_after_update [of 7 0 "\<lparr>currImmich = 50, maxImmich = 200\<rparr>",
        THEN conjunct2, THEN conjunct2, THEN conjunct2, THEN conjunct1] by blast
  show ?thesis using h a b by blast
qed

text \<open>
  Claim C7 as stated fails: nothing keeps the value between 0 and the total, so
  \<open>update(3, 2)\<close> reads as 150 percent and \<open>update(-3, 2)\<close> as -150 percent; and
  with a total beyond \<open>2^63 / 100\<close> the product wraps, so the non-decreasing values 1
  and 92233720368547759 read as 0 and then -99 percent.
\<close>

theorem percent_bounds_counterexample:
  "percent_trace \<lparr>currImmich = 0, maxImmich = 0\<rparr> [(3, 2)] = [150]
   \<and> \<not> (150 :: go_int) \<le>s 100
   \<and> percent_trace \<lparr>currImmich = 0, maxImmich = 0\<rparr> [(- 3, 2)] = [- 150]
   \<and> \<not> (0 :: go_int) \<le>s - 150
   \<and> percent_trace \<lparr>currImmich = 0, maxImmich = 0\<rparr>
        [(1, 92233720368547759), (92233720368547759, 92233720368547759)] = [0, - 99]
   \<and> \<not> (0 :: go_int) \<le>s - 99"
  by (simp add: getImmichPct_immichUpdate go_quo_def word_sless_alt word_sle_eq
      signed_divide_int_def Let_def)

text \<open>
  Claim C7, amended. For a fixed total \<open>tot > 0\<close> and a non-decreasing sequence of
  values with \<open>0 \<le> v \<le> tot\<close> and \<open>100 * v\<close> within the range of \<open>int\<close>, the
  successive percentages are non-decreasing and lie in \<open>[0, 100]\<close>.
\<close>

theorem percent_trace_monotone_bounded:
  assumes tot: "0 < sint tot"
    and sorted: "sorted_wrt (\<lambda>a b. a \<le>s b) vs"
    and range: "\<forall>v \<in> set vs. 0 \<le> sint v \<and> sint v \<le> sint tot \<and> 100 * sint v < 2 ^ 63"
  shows "sorted_wrt (\<lambda>p q. p \<le>s q) (percent_trace s (map (\<lambda>v. (v, tot)) vs))
         \<and> (\<forall>p \<in> set (percent_trace s (map (\<lambda>v. (v, tot)) vs)). 0 \<le>s p \<and> p \<le>s 100)"
proof -
  let ?pct = "\<lambda>v. getImmichPct (immichUpdate v tot s)"
  have val: "sint (?pct v) = (100 * sint v) div sint tot" if "v \<in> set vs" for v
    using that range tot by (intro sint_percent_nonneg) auto
  have mono: "?pct a \<le>s ?pct b" if "a \<in> set vs" "b \<in> set vs" "a \<le>s b" for a b
  proof -
    have "100 * sint a \<le> 100 * sint b" using that(3) by (simp add: word_sle_eq)
    then have "(100 * sint a) div sint tot \<le> (100 * sint b) div sint tot"
      using tot by (intro zdiv_mono1) simp_all
    then show ?thesis using val [OF that(1)] val [OF that(2)] by (simp add: word_sle_eq)
  qed
  have bounds: "0 \<le>s ?pct v \<and> ?pct v \<le>s 100" if "v \<in> set vs" for v
  proof -
    have v: "0 \<le> sint v" "sint v \<le> sint tot" using that range by auto
    have "0 \<le> (100 * sint v) div sint tot"
      using v(1) tot by (simp add: pos_imp_zdiv_nonneg_iff)
    moreover have "(100 * sint v) div sint tot \<le> (100 * sint tot) div sint tot"
      using v(2) tot by (intro zdiv_mono1) simp_all
    moreover have "(100 * sint tot) div sint tot = 100" using tot by simp
    ultimately show ?thesis using val [OF that] by (simp add: word_sle_eq)
  qed
  have "sorted_wrt (\<lambda>a b. ?pct a \<le>s ?pct b) vs"
    using sorted by (rule sorted_wrt_mono_rel [rotated]) (rule mono)
  then have "sorted_wrt (\<lambda>p q. p \<le>s q) (map ?pct vs)"
    by (simp add: sorted_wrt_map)
  moreover have "\<forall>p \<in> set (map ?pct vs). 0 \<le>s p \<and> p \<le>s 100"
    using bounds by auto
  ultimately show ?thesis by (simp only: percent_trace_fixed_total)
qed

text \<open>The scenario \<open>(50, 200)\<close> then \<open>(200, 200)\<close>: 25, then 100.\<close>

theorem percent_trace_monotone_bounded_witness:
  "0 < sint (200 :: go_int) \<and> sorted_wrt (\<lambda>a b. a \<le>s b) [50, 200 :: go_int]
   \<and> 0 \<le> sint (50 :: go_int) \<and> sint (50 :: go_int) \<le> sint (200 :: go_int)
   \<and> 100 * sint (200 :: go_int) < 2 ^ 63
   \<and> percent_trace \<lparr>currImmich = 0, maxImmich = 0\<rparr> [(50, 200), (200, 200)] = [25, 100]
   \<and> sorted_wrt (\<lambda>p q. p \<le>s q) (percent_trace \<lparr>currImmich = 0, maxImmich = 0\<rparr> (map (\<lambda>v. (v, 200)) [50, 200]))"
proof -
  have h1: "0 < sint (200 :: go_int)" by simp
  have h2: "sorted_wrt (\<lambda>a b. a \<le>s b) [50, 200 :: go_int]" by (simp add: word_sle_eq)
  have h3: "\<forall>v \<in> set [50, 200 :: go_int]. 0 \<le> sint v \<and> sint v \<le> sint (200 :: go_int) \<and> 100 * sint v < 2 ^ 63"
    by simp
  have h4: "percent_trace \<lparr>currImmich = 0, maxImmich = 0\<rparr> [(50, 200), (200, 200)] = [25, 100 :: go_int]"
    by (simp add: getImmichPct_immichUpdate go_quo_def word_sless_alt signed_divide_int_def Let_def)
  from percent_trace_monotone_bounded [OF h1 h2 h3, of "\<lparr>currImmich = 0, maxImmich = 0\<rparr>"] h1 h2 h3 h4
  show ?thesis by simp
qed

section \<open>The progress record\<close>

lemma digit_char_digit: "digit_char n \<in> set ''0123456789''"
  unfolding digit_char_def by (rule nth_mem) simp

lemma decimal_nat_digits: "set (decimal_nat n) \<subseteq> set ''0123456789''"
proof (induction n rule: decimal_nat.induct)
  case (1 n)
  show ?case
  proof (cases "n < 10")
    case True
    then show ?thesis using digit_char_digit [of n] by (subst decimal_nat.simps) simp
  next
    case False
    then show ?thesis
      using "1.IH" digit_char_digit [of n] by (subst decimal_nat.simps) simp
  qed
qed

lemma decimal_nat_no_newline: "CHR 0x0A \<notin> set (decimal_nat n)"
  using decimal_nat_digits [of n] by auto

lemma format_int_no_newline: "CHR 0x0A \<notin> set (format_int i)"
  by (simp add: format_int_def decimal_nat_no_newline)

lemma appendInt_no_newline: "CHR 0x0A \<notin> set (appendInt i w)"
  by (simp add: appendInt_def Let_def decimal_nat_no_newline)

lemma set_strip_zeros: "set (strip_zeros cs) \<subseteq> set cs"
  by (induction cs) (auto simp: Let_def)

lemma format_fraction_no_newline: "CHR 0x0A \<notin> set (format_fraction ns)"
  using set_strip_zeros [of "appendInt (int ns) 9"] appendInt_no_newline [of "int ns" 9]
  by (auto simp: format_fraction_def Let_def)

lemma format_zone_no_newline: "CHR 0x0A \<notin> set (format_zone off)"
  by (simp add: format_zone_def Let_def appendInt_no_newline)

lemma time_MarshalJSON_no_newline:
  "time_MarshalJSON t = Inr ts \<Longrightarrow> CHR 0x0A \<notin> set ts"
  by (auto simp: time_MarshalJSON_def appendInt_no_newline format_fraction_no_newline
      format_zone_no_newline split: if_splits)

lemma progress_line_no_newline:
  "CHR 0x0A \<notin> set ts \<Longrightarrow> CHR 0x0A \<notin> set (progress_line ts pct found errs up)"
  by (simp add: progress_line_def format_int_no_newline)

lemma json_Marshal_progress:
  "time_MarshalJSON tm = Inr ts \<Longrightarrow>
   json_Marshal \<lparr>Type = ''progress'', Timestamp = tm, ImmichReadPct = pct, AssetsFound = found,
                 UploadErrors = errs, Uploaded = up\<rparr> = Inr (progress_line ts pct found errs up)"
  by (simp add: json_Marshal_def json_string_def progress_line_def)

text \<open>
  Claim C8. \<open>WriteProgress\<close> either fails to encode the record and writes nothing, or
  makes exactly one call of \<open>Write\<close> on standard output, whose argument is one line:
  the object with the fields \<open>type\<close> (\<open>"progress"\<close>), \<open>timestamp\<close>,
  \<open>immich_read_pct\<close>, \<open>assets_found\<close>, \<open>upload_errors\<close> and \<open>uploaded\<close>,
  followed by a line feed, with no other line feed in it.
\<close>

theorem WriteProgress_single_line:
  "(case time_MarshalJSON tm of
      Inl e \<Rightarrow> snd (WriteProgress pct found errs up tm werr) = []
    | Inr ts \<Rightarrow>
        WriteProgress pct found errs up tm werr =
          (werr, [StdoutWrite (progress_line ts pct found errs up @ [CHR 0x0A])])
        \<and> single_line (progress_line ts pct found errs up @ [CHR 0x0A]))"
proof (cases "time_MarshalJSON tm")
  case (Inl e)
  then show ?thesis
    by (simp add: WriteProgress_def writeJSON_def json_Marshal_def fmt_Errorf_w_def)
next
  case (Inr ts)
  then have "CHR 0x0A \<notin> set (progress_line ts pct found errs up)"
    by (intro progress_line_no_newline time_MarshalJSON_no_newline)
  then show ?thesis using Inr
    by (simp add: WriteProgress_def writeJSON_def json_Marshal_progress single_line_def)
qed

lemma decimal_nat_small: "n < 10 \<Longrightarrow> decimal_nat n = [digit_char n]"
  by (subst decimal_nat.simps) simp

lemma decimal_nat_large: "\<not> n < 10 \<Longrightarrow> decimal_nat n = decimal_nat (n div 10) @ [digit_char n]"
  by (subst decimal_nat.simps) simp

lemmas format_eval = decimal_nat_small decimal_nat_large digit_char_def format_int_def
  appendInt_def format_fraction_def format_zone_def time_MarshalJSON_def Let_def
  signed_divide_int_def

lemma test_clock_json:
  "time_MarshalJSON test_clock = Inr ''\"2026-11-01T09:05:07.12-05:30\"''"
  by (simp add: test_clock_def format_eval)

lemma progress_line_example:
  "progress_line ''\"2026-11-01T09:05:07.12-05:30\"'' 42 120 3 10 =
   ''{\"type\":\"progress\",\"timestamp\":\"2026-11-01T09:05:07.12-05:30\",\"immich_read_pct\":42,\"assets_found\":120,\"upload_errors\":3,\"uploaded\":10}''"
  by (simp add: progress_line_def format_eval)

text \<open>The call of the package's own test, \<open>WriteProgress(42, 120, 3, 10)\<close>.\<close>

theorem WriteProgress_single_line_witness:
  "WriteProgress 42 120 3 10 test_clock None =
     (None, [StdoutWrite (''{\"type\":\"progress\",\"timestamp\":\"2026-11-01T09:05:07.12-05:30\",\"immich_read_pct\":42,\"assets_found\":120,\"upload_errors\":3,\"uploaded\":10}'' @ [CHR 0x0A])])"
  using WriteProgress_single_line [of 42 120 3 10 test_clock None]
  by (simp add: test_clock_json progress_line_example)

section \<open>The filtering log handler\<close>

lemma attrFilter_cases:
  "attrFilter a k = (if is_canceled_attr a then (False, False) else (True, k))"
  by (cases a; cases "snd a") (simp_all add: attrFilter_def asError_def is_canceled_attr_def)

lemma Record_Attrs_attrFilter:
  "Record_Attrs attrFilter as k = (k \<and> \<not> (\<exists>a \<in> set as. is_canceled_attr a))"
  by (induction as arbitrary: k) (auto simp: attrFilter_cases)

text \<open>
  Claim C9. \<open>Handle\<close> returns nil without calling the wrapped handler for a record
  of level Error or higher that has an attribute whose value is an error matching
  \<open>context.Canceled\<close>; every other record is passed unchanged to the wrapped handler,
  whose result is returned.
\<close>

theorem Handle_drops_canceled:
  "Handle handler r h =
     (if LevelError \<le> Level r \<and> (\<exists>a \<in> set (Attrs r). is_canceled_attr a)
      then (None, h) else handler r h)"
  by (simp add: Handle_def Record_Attrs_attrFilter Let_def)

text \<open>
  A wrapped cancellation at level Error is dropped; another error at level Error and a
  cancellation at level Info are forwarded.
\<close>

theorem Handle_drops_canceled_witness:
  "Handle (\<lambda>r h. (Some DeadlineExceeded, h @ [r]))
     \<lparr>Level = 8, Message = ''upload failed'',
      Attrs = [(''file'', StringValue ''a.jpg''),
               (''err'', AnyError (WrapError ''Post: '' Canceled))]\<rparr> [] = (None, [])
   \<and> Handle (\<lambda>r h. (Some DeadlineExceeded, h @ [r]))
     \<lparr>Level = 8, Message = ''upload failed'',
      Attrs = [(''err'', AnyError (ErrorString ''disk full''))]\<rparr> []
     = (Some DeadlineExceeded,
        [\<lparr>Level = 8, Message = ''upload failed'',
          Attrs = [(''err'', AnyError (ErrorString ''disk full''))]\<rparr>])
   \<and> Handle (\<lambda>r h. (Some DeadlineExceeded, h @ [r]))
     \<lparr>Level = 4, Message = ''cancelled'', Attrs = [(''err'', AnyError Canceled)]\<rparr> []
     = (Some DeadlineExceeded,
        [\<lparr>Level = 4, Message = ''cancelled'', Attrs = [(''err'', AnyError Canceled)]\<rparr>])"
  by (simp add: Handle_drops_canceled LevelError_def is_canceled_attr_def)

section \<open>The flag listing\<close>

lemma strings_Contains_iff:
  "strings_Contains s substr \<longleftrightarrow> (\<exists>pre post. s = pre @ substr @ post)"
proof (induction s)
  case Nil
  show ?case by auto
next
  case (Cons c cs)
  have pre: "take (length substr) (c # cs) = substr \<longleftrightarrow> (\<exists>post. c # cs = substr @ post)"
    by (metis append_eq_conv_conj append_take_drop_id)
  show ?case
  proof
    assume "strings_Contains (c # cs) substr"
    then consider "take (length substr) (c # cs) = substr" | "strings_Contains cs substr"
      by auto
    then show "\<exists>pre post. c # cs = pre @ substr @ post"
    proof cases
      case 1
      then obtain post where "c # cs = substr @ post" using pre by blast
      then have "c # cs = [] @ substr @ post" by simp
      then show ?thesis by blast
    next
      case 2
      then obtain p q where "cs = p @ substr @ q" using Cons.IH by blast
      then have "c # cs = (c # p) @ substr @ q" by simp
      then show ?thesis by blast
    qed
  next
    assume "\<exists>pre post. c # cs = pre @ substr @ post"
    then obtain p q where pq: "c # cs = p @ substr @ q" by blast
    show "strings_Contains (c # cs) substr"
    proof (cases p)
      case Nil
      then have "c # cs = substr @ q" using pq by simp
      then have "take (length substr) (c # cs) = substr" using pre by blast
      then show ?thesis by simp
    next
      case (Cons x xs)
      then have "cs = xs @ substr @ q" using pq by simp
      then show ?thesis using Cons.IH by auto
    qed
  qed
qed

lemma strings_Repeat_star: "strings_Repeat ''*'' n = replicate n CHR ''*''"
  by (induction n) (simp_all add: strings_Repeat_def)

text \<open>
  Claim C10. For a flag whose name contains \<open>api-key\<close> and whose value is longer than
  4 bytes, the logged value is asterisks followed by exactly the last 4 bytes of the
  value; so two values of the same length with the same last 4 bytes give the same
  logged line.
\<close>

theorem visitFlags_masks_api_key:
  assumes "strings_Contains (Name f) ''api-key''" and "4 < length (Value f)"
  shows "visitFlags f origin =
           LogInfo '''' [(''--'' @ Name f,
                          StringValue (replicate (length (Value f) - 4) CHR ''*''
                                       @ drop (length (Value f) - 4) (Value f))),
                         (''origin'', StringValue origin)]
         \<and> length (drop (length (Value f) - 4) (Value f)) = 4
         \<and> (\<forall>g. Name g = Name f \<and> length (Value g) = length (Value f)
                 \<and> drop (length (Value g) - 4) (Value g) = drop (length (Value f) - 4) (Value f)
               \<longrightarrow> visitFlags g origin = visitFlags f origin)"
  using assms by (auto simp: visitFlags_def strings_Repeat_star Let_def)

text \<open>Two keys that differ only in the masked part are logged alike.\<close>

theorem visitFlags_masks_api_key_witness:
  "strings_Contains ''admin-api-key'' ''api-key'' \<and> 4 < length ''abcdefgh''
   \<and> visitFlags \<lparr>Name = ''admin-api-key'', Value = ''abcdefgh''\<rparr> ''cli''
       = LogInfo '''' [(''--admin-api-key'', StringValue ''****efgh''), (''origin'', StringValue ''cli'')]
   \<and> visitFlags \<lparr>Name = ''admin-api-key'', Value = ''WXYZefgh''\<rparr> ''cli''
       = visitFlags \<lparr>Name = ''admin-api-key'', Value = ''abcdefgh''\<rparr> ''cli''"
proof -
  let ?f = "\<lparr>Name = ''admin-api-key'', Value = ''abcdefgh''\<rparr>"
  let ?g = "\<lparr>Name = ''admin-api-key'', Value = ''WXYZefgh''\<rparr>"
  have h1: "strings_Contains (Name ?f) ''api-key''" by simp
  have h2: "4 < length (Value ?f)" by simp
  note t = visitFlags_masks_api_key [OF h1 h2, of "''cli''"]
  have a: "visitFlags ?f ''cli''
       = LogInfo '''' [(''--admin-api-key'', StringValue ''****efgh''), (''origin'', StringValue ''cli'')]"
    using t [THEN conjunct1] by (simp add: numeral_eq_Suc)
  have "Name ?g = Name ?f \<and> length (Value ?g) = length (Value ?f)
        \<and> drop (length (Value ?g) - 4) (Value ?g) = drop (length (Value ?f) - 4) (Value ?f)"
    by simp
  then have b: "visitFlags ?g ''cli'' = visitFlags ?f ''cli''"
    using t [THEN conjunct2, THEN conjunct2] by blast
  show ?thesis using h1 h2 a b by simp
qed

section \<open>The cancellation state\<close>

lemma ctx_Done_cancel: "ctx_Done (cancel x c)"
  by (simp add: cancel_def ctx_Done_def)

lemma cancel_when_done: "ctx_Done c \<Longrightarrow> cancel x c = c"
  by (simp add: cancel_def)

lemma parentCancel_when_done: "ctx_Done c \<Longrightarrow> parentCancel p c = c"
  by (simp add: parentCancel_def split: option.splits prod.splits)

lemma parentCancel_None: "parentCancel None c = c"
  by (simp add: parentCancel_def)

lemma ctx_Done_parentCancel: "ctx_Done c \<Longrightarrow> ctx_Done (parentCancel p c)"
  by (simp add: parentCancel_when_done)

lemma apply_call_when_done: "ctx_Done c \<Longrightarrow> apply_call c a = c"
  by (cases a) (simp_all add: cancel_when_done parentCancel_when_done)

lemma foldl_apply_call_when_done: "ctx_Done c \<Longrightarrow> foldl apply_call c calls = c"
  by (induction calls) (simp_all add: apply_call_when_done)

lemma cancel_fresh:
  "cancel (Some e) WithCancelCause = \<lparr>ctx_err = Some Canceled, ctx_cause = Some e\<rparr>"
  by (simp add: cancel_def WithCancelCause_def ctx_Done_def)

section \<open>The reporter\<close>

lemma snd_progressLoop:
  "snd (progressLoop app ticks sg c) = (case sg of StopProgress \<Rightarrow> None | CtxDone \<Rightarrow> ctx_Err c)"
  by (induction app ticks sg c rule: progressLoop.induct) (simp_all add: case_prod_beta)

lemma progressTask_parts:
  "final (progressTask app ticks sg c w) = deferredStatus app w"
  "returned (progressTask app ticks sg c w) = (case sg of StopProgress \<Rightarrow> None | CtxDone \<Rightarrow> ctx_Err c)"
  by (simp_all add: progressTask_def case_prod_beta snd_progressLoop)

lemma progressTask_alt_parts:
  "length (final (progressTask_alt app ticks sg c w1 w2)) = 2"
  "returned (progressTask_alt app ticks sg c w1 w2) = (case sg of StopProgress \<Rightarrow> None | CtxDone \<Rightarrow> ctx_Err c)"
  by (simp_all add: progressTask_alt_def split: prod.splits)

section \<open>The pipeline\<close>

lemma pipeline_signal:
  "stopProgressClosed (pipeline advisory e c) \<or> ctx_Done (p_ctx (pipeline advisory e c))"
  by (simp add: pipeline_def Let_def ctx_Done_cancel split: prod.splits)

lemma selectSignal_Some:
  "closed \<or> done \<Longrightarrow> \<exists>sg. selectSignal closed done pref = Some sg"
  by (auto simp: selectSignal_def)

lemma runNoUI_returns: "\<exists>out. runNoUI app e = Some out"
proof -
  let ?p = "pipeline advisory_text e WithCancelCause"
  let ?c8 = "parentCancel (parentCancelled e BeforeReporterExit) (p_ctx ?p)"
  have "stopProgressClosed ?p \<or> ctx_Done ?c8"
    using pipeline_signal [of advisory_text e WithCancelCause] ctx_Done_parentCancel by blast
  then obtain sg where "selectSignal (stopProgressClosed ?p) (ctx_Done ?c8) (selectStop e) = Some sg"
    using selectSignal_Some by blast
  then show ?thesis by (simp add: runNoUI_def Let_def)
qed

lemma runNoUI_reporter:
  "runNoUI app e = Some out \<Longrightarrow> final (reporter out) = deferredStatus app (finalWorld e)"
  by (auto simp: runNoUI_def Let_def progressTask_parts split: option.splits)

lemma runNoUI_alt_reporter:
  "runNoUI_alt app e = Some out \<Longrightarrow> length (final (reporter out)) = 2"
  by (auto simp: runNoUI_alt_def Let_def progressTask_alt_parts split: option.splits)

lemma length_deferredStatus:
  "length (deferredStatus app w) = (if isJSONMode app \<or> isNonInteractive app then 1 else 0)"
  by (simp add: deferredStatus_def)

lemma length_progressLoop:
  "length (fst (progressLoop app ticks sg c)) =
     (if isJSONMode app \<or> isNonInteractive app then length ticks else 0)"
  by (induction app ticks sg c rule: progressLoop.induct)
    (simp_all add: case_prod_beta tickerStatus_def)

lemma progressTask_periodic:
  "length (periodic (progressTask app ticks sg c w)) =
     (if isJSONMode app \<or> isNonInteractive app then length ticks else 0)"
  by (simp add: progressTask_def case_prod_beta length_progressLoop)

lemma runNoUI_periodic:
  "runNoUI app e = Some out \<Longrightarrow>
   length (periodic (reporter out)) =
     (if isJSONMode app \<or> isNonInteractive app then length (tickWorlds e) else 0)"
proof -
  assume "runNoUI app e = Some out"
  then obtain sg c where "reporter out = progressTask app (tickWorlds e) sg c (finalWorld e)"
    by (auto simp: runNoUI_def Let_def split: option.splits)
  then show ?thesis by (simp only: progressTask_periodic)
qed

text \<open>
  Claim C1, amended. \<open>runNoUI\<close> of the first listing always returns, and whatever the
  outcome of the run and whichever of the completion signal and the cancellation its
  reporter leaves the loop by, the reporter renders once for each tick it served and
  then, through the deferred function only, exactly once more in JSON mode or
  non-interactive mode; in interactive text mode it renders nothing at all.
\<close>

theorem runNoUI_one_final_render:
  "\<exists>out. runNoUI app e = Some out
         \<and> final (reporter out) = deferredStatus app (finalWorld e)
         \<and> length (final (reporter out)) = (if isJSONMode app \<or> isNonInteractive app then 1 else 0)
         \<and> length (periodic (reporter out)) =
             (if isJSONMode app \<or> isNonInteractive app then length (tickWorlds e) else 0)"
proof -
  obtain out where out: "runNoUI app e = Some out"
    using runNoUI_returns by blast
  then have f: "final (reporter out) = deferredStatus app (finalWorld e)"
    by (rule runNoUI_reporter)
  then have "length (final (reporter out)) = (if isJSONMode app \<or> isNonInteractive app then 1 else 0)"
    by (simp only: length_deferredStatus)
  with out f runNoUI_periodic [OF out] show ?thesis by blast
qed

lemma runNoUI_alt_returns: "\<exists>out. runNoUI_alt app e = Some out"
proof -
  let ?p = "pipeline advisory_text_alt e WithCancelCause"
  let ?c8 = "parentCancel (parentCancelled e BeforeReporterExit) (p_ctx ?p)"
  have "stopProgressClosed ?p \<or> ctx_Done ?c8"
    using pipeline_signal [of advisory_text_alt e WithCancelCause] ctx_Done_parentCancel by blast
  then obtain sg where "selectSignal (stopProgressClosed ?p) (ctx_Done ?c8) (selectStop e) = Some sg"
    using selectSignal_Some by blast
  then show ?thesis by (simp add: runNoUI_alt_def Let_def)
qed

text \<open>
  Whenever the inventory phase succeeds and the parent context is live at the join, the
  upload loop is started, whatever the album fetch returned.
\<close>

lemma pipeline_starts_upload:
  assumes "getImmichAssets e = None"
    and "parentCancelled e BeforeInventoryCancel = None"
    and "parentCancelled e BeforeJoinCheck = None"
  shows "uploadStarted (pipeline advisory e WithCancelCause)"
proof -
  have g: "processGrp e WithCancelCause = (getImmichAlbums e, WithCancelCause)"
    using assms by (cases "getImmichAlbums e") (simp_all add: processGrp_def parentCancel_None)
  have w: "context_Cause WithCancelCause = None"
    by (simp add: context_Cause_def WithCancelCause_def)
  show ?thesis
    using assms by (simp add: pipeline_def g w parentCancel_None Let_def)
qed

text \<open>
  With no failure and a live parent, the returned error is decided by the finishing
  step's result and by the case the reporter's \<open>select\<close> takes: the cause (the advisory,
  if an error was counted) is returned only if the finishing step failed or the
  reporter left by the cancellation.
\<close>

lemma runNoUI_after_clean_upload:
  assumes "getImmichAssets e = None" and "getImmichAlbums e = None" and "uploadLoop e = None"
    and "parentCancelled e = never_cancelled"
  shows "map_option result (runNoUI app e) =
           Some (if 0 <s error_counters (loggerCounts e)
                 then (if finishing e \<noteq> None \<or> \<not> selectStop e
                       then Some (ErrorString advisory_text) else None)
                 else None)"
proof -
  have g: "processGrp e WithCancelCause = (None, WithCancelCause)"
    using assms by (simp add: processGrp_def parentCancel_None never_cancelled_def)
  have w: "context_Cause WithCancelCause = None" "\<not> ctx_Done WithCancelCause"
    by (simp_all add: context_Cause_def WithCancelCause_def ctx_Done_def)
  have a: "advisory_text \<noteq> []" by (simp add: advisory_text_def)
  let ?adv = "\<lparr>ctx_err = Some Canceled, ctx_cause = Some (ErrorString advisory_text)\<rparr>"
  have c: "cancel (errors_New advisory_text) WithCancelCause = ?adv"
    by (simp add: errors_New_def cancel_fresh)
  have p: "pipeline advisory_text e WithCancelCause =
             \<lparr>p_ctx = (if 0 <s error_counters (loggerCounts e) then ?adv else WithCancelCause),
              p_err = errors_Join [None, finishing e], uploadStarted = True,
              finishingRan = True, stopProgressClosed = True\<rparr>"
    using assms a
    by (simp add: pipeline_def g w parentCancel_None never_cancelled_def Let_def c)
  have j: "errors_Join [None, x] = (case x of None \<Rightarrow> None | Some f \<Rightarrow> Some (JoinError [f]))" for x
    by (cases x) (simp_all add: errors_Join_def List.map_filter_def)
  show ?thesis
  proof (cases "0 <s error_counters (loggerCounts e)")
    case True
    have d: "ctx_Done ?adv" by (simp add: ctx_Done_def)
    show ?thesis
      using True assms(4)
      by (cases "finishing e"; cases "selectStop e")
        (simp_all add: runNoUI_def p j parentCancel_None never_cancelled_def selectSignal_def d
          progressTask_parts ctx_Err_def context_Cause_def Let_def)
  next
    case False
    show ?thesis
      using False assms(4)
      by (cases "finishing e")
        (simp_all add: runNoUI_def p j parentCancel_None never_cancelled_def selectSignal_def w
          progressTask_parts Let_def)
  qed
qed

lemmas run_eval = runNoUI_def runNoUI_alt_def pipeline_def processGrp_def parentCancel_def
  cancel_def WithCancelCause_def ctx_Done_def ctx_Err_def context_Cause_def selectSignal_def
  errors_Join_def errors_New_def error_counters_def List.map_filter_def Let_def
  clean_run_def never_cancelled_def no_events_def word_sless_alt

text \<open>A clean run in JSON mode ends with one render.\<close>

theorem runNoUI_one_final_render_witness:
  "map_option (length \<circ> final \<circ> reporter)
     (runNoUI \<lparr>Output = ''json'', NonInteractive = False\<rparr> clean_run) = Some 1"
  using runNoUI_one_final_render [of "\<lparr>Output = ''json'', NonInteractive = False\<rparr>" clean_run]
  by (auto simp: isJSONMode_def)

text \<open>
  Claim C1 as stated fails. In the first listing a clean run in interactive text mode
  ends without any render. In the second listing a clean run in JSON mode ends with two
  renders, one in the case of the completion signal and one in the deferred function.
\<close>

theorem final_render_counterexample:
  "map_option (length \<circ> final \<circ> reporter)
     (runNoUI \<lparr>Output = ''text'', NonInteractive = False\<rparr> clean_run) = Some 0
   \<and> map_option (length \<circ> final \<circ> reporter)
     (runNoUI_alt \<lparr>Output = ''json'', NonInteractive = True\<rparr> clean_run) = Some 2"
proof -
  obtain out where o: "runNoUI \<lparr>Output = ''text'', NonInteractive = False\<rparr> clean_run = Some out"
    using runNoUI_returns by blast
  have "length (final (reporter out)) = 0"
    using runNoUI_reporter [OF o]
    by (simp add: deferredStatus_def isJSONMode_def isNonInteractive_def)
  then have a: "map_option (length \<circ> final \<circ> reporter)
     (runNoUI \<lparr>Output = ''text'', NonInteractive = False\<rparr> clean_run) = Some 0"
    using o by simp
  have "runNoUI_alt \<lparr>Output = ''json'', NonInteractive = True\<rparr> clean_run \<noteq> None"
    by (simp add: run_eval)
  then obtain out2 where o2: "runNoUI_alt \<lparr>Output = ''json'', NonInteractive = True\<rparr> clean_run = Some out2"
    by blast
  have b: "map_option (length \<circ> final \<circ> reporter)
     (runNoUI_alt \<lparr>Output = ''json'', NonInteractive = True\<rparr> clean_run) = Some 2"
    using runNoUI_alt_reporter [OF o2] o2 by simp
  show ?thesis using a b by blast
qed

text \<open>
  Claim C2 at its failing input: only the album fetch fails. In both listings the
  cancellation cause is still nil after the join, so the upload loop is started, and
  \<open>runNoUI\<close> returns nil.
\<close>

theorem album_error_not_propagated:
  "map_option upload_started
     (runNoUI app (clean_run\<lparr>getImmichAlbums := Some (ErrorString ''album fetch failed'')\<rparr>))
     = Some True
   \<and> map_option result
     (runNoUI app (clean_run\<lparr>getImmichAlbums := Some (ErrorString ''album fetch failed'')\<rparr>))
     = Some None
   \<and> map_option upload_started
     (runNoUI_alt app (clean_run\<lparr>getImmichAlbums := Some (ErrorString ''album fetch failed'')\<rparr>))
     = Some True
   \<and> map_option result
     (runNoUI_alt app (clean_run\<lparr>getImmichAlbums := Some (ErrorString ''album fetch failed'')\<rparr>))
     = Some None"
  by (simp add: run_eval progressTask_parts progressTask_alt_parts)

text \<open>
  Claim C4 at its failing input: everything succeeds and one upload failure is counted.
  The cause is resolved to the advisory message, but when the reporter leaves its loop
  by the completion signal every goroutine has returned nil and \<open>runNoUI\<close> returns nil;
  it returns the advisory only when the reporter leaves by the cancellation.
\<close>

theorem advisory_lost_on_completion_signal:
  "map_option (context_Cause \<circ> run_ctx)
     (runNoUI app (clean_run\<lparr>loggerCounts := one_upload_failed\<rparr>))
     = Some (Some (ErrorString advisory_text))
   \<and> map_option result
     (runNoUI app (clean_run\<lparr>loggerCounts := one_upload_failed\<rparr>)) = Some None
   \<and> map_option result
     (runNoUI app (clean_run\<lparr>loggerCounts := one_upload_failed, selectStop := False\<rparr>))
     = Some (Some (ErrorString advisory_text))"
  by (simp add: run_eval progressTask_parts advisory_text_def)

text \<open>
  Claim C5 at its failing inputs. When only the finishing step fails, no cause was
  resolved and \<open>runNoUI\<close> returns nil. When the upload loop and the finishing step both
  fail, the pipeline goroutine returns the join of the two errors, but \<open>runNoUI\<close>
  returns the cause, which is the upload error alone.
\<close>

theorem finishing_error_not_returned:
  "map_option result
     (runNoUI app (clean_run\<lparr>finishing := Some (ErrorString ''finishing failed'')\<rparr>)) = Some None
   \<and> p_err (pipeline advisory_text
        (clean_run\<lparr>uploadLoop := Some (ErrorString ''upload failed''),
                    finishing := Some (ErrorString ''finishing failed'')\<rparr>) WithCancelCause)
     = Some (JoinError [ErrorString ''upload failed'', ErrorString ''finishing failed''])
   \<and> map_option result
     (runNoUI app (clean_run\<lparr>uploadLoop := Some (ErrorString ''upload failed''),
                               finishing := Some (ErrorString ''finishing failed'')\<rparr>))
     = Some (Some (ErrorString ''upload failed''))"
  by (simp add: run_eval progressTask_parts)


lemma ctx_Done_apply_call_fresh: "ctx_Done (apply_call WithCancelCause a)"
proof (cases a)
  case (Cancel x)
  then show ?thesis by (simp add: ctx_Done_cancel)
next
  case (ParentCancel x y)
  then show ?thesis by (simp add: parentCancel_def ctx_Done_def WithCancelCause_def)
qed

lemma after_calls_first: "after_calls (a # later) = after_calls [a]"
  by (simp add: after_calls_def foldl_apply_call_when_done ctx_Done_apply_call_fresh)

lemma runNoUI_inventory_cause:
  assumes "getImmichAssets e = Some e1" and "parentCancelled e BeforeInventoryCancel = None"
  shows "map_option result (runNoUI app e) = Some (Some e1)"
proof -
  let ?c = "\<lparr>ctx_err = Some Canceled, ctx_cause = Some e1\<rparr>"
  have d: "ctx_Done ?c" by (simp add: ctx_Done_def)
  have g: "processGrp e WithCancelCause = (Some e1, ?c)"
    using assms by (simp add: processGrp_def parentCancel_None cancel_fresh Let_def)
  have p: "pipeline advisory_text e WithCancelCause =
             \<lparr>p_ctx = ?c, p_err = Some e1, uploadStarted = False, finishingRan = False,
              stopProgressClosed = False\<rparr>"
    by (simp add: pipeline_def g parentCancel_when_done [OF d] cancel_when_done [OF d]
        context_Cause_def)
  show ?thesis
    by (simp add: runNoUI_def p parentCancel_when_done [OF d] selectSignal_def d
        progressTask_parts ctx_Err_def context_Cause_def Let_def)
qed

lemma runNoUI_upload_cause:
  assumes "uploadLoop e = Some e1" and "getImmichAssets e = None"
    and "parentCancelled e BeforeInventoryCancel = None"
    and "parentCancelled e BeforeJoinCheck = None"
    and "parentCancelled e BeforeUploadCancel = None"
  shows "map_option result (runNoUI app e) = Some (Some e1)"
proof -
  let ?c = "\<lparr>ctx_err = Some Canceled, ctx_cause = Some e1\<rparr>"
  have d: "ctx_Done ?c" by (simp add: ctx_Done_def)
  have g: "processGrp e WithCancelCause = (getImmichAlbums e, WithCancelCause)"
    using assms by (cases "getImmichAlbums e") (simp_all add: processGrp_def parentCancel_None)
  have w: "context_Cause WithCancelCause = None"
    by (simp add: context_Cause_def WithCancelCause_def)
  have j: "errors_Join [Some e1, finishing e] \<noteq> None"
    by (cases "finishing e") (simp_all add: errors_Join_def List.map_filter_def)
  have p: "p_ctx (pipeline advisory_text e WithCancelCause) = ?c
           \<and> p_err (pipeline advisory_text e WithCancelCause) = errors_Join [Some e1, finishing e]
           \<and> stopProgressClosed (pipeline advisory_text e WithCancelCause)"
    using assms
    by (simp add: pipeline_def g w parentCancel_None cancel_fresh parentCancel_when_done [OF d]
        cancel_when_done [OF d] Let_def)
  obtain x where x: "errors_Join [Some e1, finishing e] = Some x" using j by blast
  have wait: "errgroup_Wait [r, Some x] \<noteq> None" for r
    by (cases r) simp_all
  show ?thesis
    using p x wait
    by (simp add: runNoUI_def Let_def parentCancel_when_done [OF d] selectSignal_def d
        context_Cause_def)
qed

text \<open>
  What does hold of the cancellation state. Whatever cancellations follow the first one,
  the state of the context is the one the first left. In \<open>runNoUI\<close> the goroutines
  that call \<open>cancel\<close> with their error are the inventory phase and the pipeline after
  the upload loop: when the inventory phase fails with \<open>e1\<close> before the parent is
  cancelled, or the upload loop fails with \<open>e1\<close> before anything else cancelled, the
  returned error is \<open>e1\<close>, whatever is cancelled afterwards.
\<close>

lemma first_cancel_call_wins:
  "after_calls (a # later) = after_calls [a]
   \<and> context_Cause (after_calls (Cancel (Some e1) # later)) = Some e1
   \<and> (getImmichAssets e = Some e1 \<and> parentCancelled e BeforeInventoryCancel = None
        \<longrightarrow> map_option result (runNoUI app e) = Some (Some e1))
   \<and> (uploadLoop e = Some e1 \<and> getImmichAssets e = None
        \<and> parentCancelled e BeforeInventoryCancel = None
        \<and> parentCancelled e BeforeJoinCheck = None
        \<and> parentCancelled e BeforeUploadCancel = None
        \<longrightarrow> map_option result (runNoUI app e) = Some (Some e1))"
proof (intro conjI impI)
  show "after_calls (a # later) = after_calls [a]"
    by (rule after_calls_first)
  show "context_Cause (after_calls (Cancel (Some e1) # later)) = Some e1"
    by (simp add: after_calls_first [of _ later])
      (simp add: after_calls_def cancel_fresh context_Cause_def)
next
  assume "getImmichAssets e = Some e1 \<and> parentCancelled e BeforeInventoryCancel = None"
  then show "map_option result (runNoUI app e) = Some (Some e1)"
    by (simp add: runNoUI_inventory_cause)
next
  assume "uploadLoop e = Some e1 \<and> getImmichAssets e = None
        \<and> parentCancelled e BeforeInventoryCancel = None
        \<and> parentCancelled e BeforeJoinCheck = None
        \<and> parentCancelled e BeforeUploadCancel = None"
  then show "map_option result (runNoUI app e) = Some (Some e1)"
    by (simp add: runNoUI_upload_cause)
qed

text \<open>
  The inventory phase fails with E1 and the parent is cancelled with E2 after the join;
  the upload loop fails with E1 and the advisory follows.
\<close>

lemma first_cancel_call_wins_example:
  "context_Cause (after_calls [Cancel (Some (ErrorString ''E1'')), Cancel (Some (ErrorString ''E2'')),
                                ParentCancel DeadlineExceeded DeadlineExceeded, Cancel None])
     = Some (ErrorString ''E1'')
   \<and> map_option result
       (runNoUI \<lparr>Output = ''json'', NonInteractive = True\<rparr> (clean_run\<lparr>parentCancelled := cancelled_after_join Canceled (ErrorString ''E2''),
                                 getImmichAssets := Some (ErrorString ''E1''),
                                 getImmichAlbums := Some (ErrorString ''E3'')\<rparr>))
     = Some (Some (ErrorString ''E1''))
   \<and> map_option result
       (runNoUI \<lparr>Output = ''json'', NonInteractive = True\<rparr> (clean_run\<lparr>uploadLoop := Some (ErrorString ''E1''),
                                 loggerCounts := one_upload_failed\<rparr>))
     = Some (Some (ErrorString ''E1''))"
proof -
  let ?e = "clean_run\<lparr>parentCancelled := cancelled_after_join Canceled (ErrorString ''E2''),
                        getImmichAssets := Some (ErrorString ''E1''),
                        getImmichAlbums := Some (ErrorString ''E3'')\<rparr>"
  let ?u = "clean_run\<lparr>uploadLoop := Some (ErrorString ''E1''), loggerCounts := one_upload_failed\<rparr>"
  note t = first_cancel_call_wins [of "Cancel (Some (ErrorString ''E1''))" _ "ErrorString ''E1''"]
  have a: "context_Cause (after_calls [Cancel (Some (ErrorString ''E1'')), Cancel (Some (ErrorString ''E2'')),
                                ParentCancel DeadlineExceeded DeadlineExceeded, Cancel None])
     = Some (ErrorString ''E1'')"
    using t [THEN conjunct2, THEN conjunct1] .
  have "getImmichAssets ?e = Some (ErrorString ''E1'') \<and> parentCancelled ?e BeforeInventoryCancel = None"
    by (simp add: clean_run_def)
  then have b: "map_option result (runNoUI \<lparr>Output = ''json'', NonInteractive = True\<rparr> ?e) = Some (Some (ErrorString ''E1''))"
    using t [of _ ?e "\<lparr>Output = ''json'', NonInteractive = True\<rparr>", THEN conjunct2, THEN conjunct2, THEN conjunct1] by blast
  have "uploadLoop ?u = Some (ErrorString ''E1'') \<and> getImmichAssets ?u = None
        \<and> parentCancelled ?u BeforeInventoryCancel = None
        \<and> parentCancelled ?u BeforeJoinCheck = None
        \<and> parentCancelled ?u BeforeUploadCancel = None"
    by (simp add: clean_run_def never_cancelled_def)
  then have c: "map_option result (runNoUI \<lparr>Output = ''json'', NonInteractive = True\<rparr> ?u) = Some (Some (ErrorString ''E1''))"
    using t [of _ ?u "\<lparr>Output = ''json'', NonInteractive = True\<rparr>", THEN conjunct2, THEN conjunct2, THEN conjunct2] by blast
  show ?thesis using a b c by blast
qed

text \<open>
  Claim C3 at its failing inputs. The album phase fails first, with E1, and fails
  without a call of \<open>cancel\<close>: the goroutine of \<open>getImmichAlbums\<close> only returns its
  error. So the context is still live when the inventory phase fails later with E2, the
  cause is resolved to E2, and \<open>runNoUI\<close> returns E2, the later error. In the same way,
  when the inventory phase succeeds, the album error E1 leaves the cause nil, the upload
  loop runs, and its later error E2 becomes the cause and the returned error. Both
  listings behave alike.
\<close>

theorem album_error_is_not_first_cause:
  "map_option (context_Cause \<circ> run_ctx)
     (runNoUI app (clean_run\<lparr>getImmichAssets := Some (ErrorString ''E2''),
                               getImmichAlbums := Some (ErrorString ''E1'')\<rparr>))
     = Some (Some (ErrorString ''E2''))
   \<and> map_option result
     (runNoUI app (clean_run\<lparr>getImmichAssets := Some (ErrorString ''E2''),
                               getImmichAlbums := Some (ErrorString ''E1'')\<rparr>))
     = Some (Some (ErrorString ''E2''))
   \<and> map_option result
     (runNoUI app (clean_run\<lparr>getImmichAlbums := Some (ErrorString ''E1''),
                               uploadLoop := Some (ErrorString ''E2'')\<rparr>))
     = Some (Some (ErrorString ''E2''))
   \<and> map_option result
     (runNoUI_alt app (clean_run\<lparr>getImmichAssets := Some (ErrorString ''E2''),
                                   getImmichAlbums := Some (ErrorString ''E1'')\<rparr>))
     = Some (Some (ErrorString ''E2''))
   \<and> map_option result
     (runNoUI_alt app (clean_run\<lparr>getImmichAlbums := Some (ErrorString ''E1''),
                                   uploadLoop := Some (ErrorString ''E2'')\<rparr>))
     = Some (Some (ErrorString ''E2''))"
  by (simp add: run_eval progressTask_parts progressTask_alt_parts)

end
